theory Spec2Isabelle
  imports Complex_Main "HOL-Library.Sublist" "HOL-Library.AList"
begin

section \<open>Strings\<close>

text \<open>
  Python strings are modelled as HOL strings, one \<open>char\<close> per code point. File names and
  field values are taken to be text whose code points lie below 256. On such text
  \<open>str.lower\<close> maps \<open>A\<close>..\<open>Z\<close> to \<open>a\<close>..\<open>z\<close> and maps every other code point to a
  code point outside ASCII or to itself; the regular-expression class \<open>\d\<close> is
  \<open>0\<close>..\<open>9\<close> there. The model of \<open>lower\<close> leaves code points outside \<open>A\<close>..\<open>Z\<close>
  unchanged: every use of it in matcher.py is followed either by the removal of all
  characters outside \<open>[a-z0-9]\<close> or by a comparison with an ASCII prefix, so the results
  are the ones of the source.
\<close>

definition is_lower :: "char \<Rightarrow> bool" where
  "is_lower c = (let n = (of_char c :: nat) in 97 \<le> n \<and> n \<le> 122)"

definition is_upper :: "char \<Rightarrow> bool" where
  "is_upper c = (let n = (of_char c :: nat) in 65 \<le> n \<and> n \<le> 90)"

definition is_digit :: "char \<Rightarrow> bool" where
  "is_digit c = (let n = (of_char c :: nat) in 48 \<le> n \<and> n \<le> 57)"

definition is_hex :: "char \<Rightarrow> bool" where
  \<comment> \<open>the class \<open>[0-9a-fA-F]\<close>\<close>
  "is_hex c = (let n = (of_char c :: nat) in
     (48 \<le> n \<and> n \<le> 57) \<or> (97 \<le> n \<and> n \<le> 102) \<or> (65 \<le> n \<and> n \<le> 70))"

definition lower_char :: "char \<Rightarrow> char" where
  "lower_char c = (if is_upper c then char_of ((of_char c :: nat) + 32) else c)"

definition lower :: "string \<Rightarrow> string" where
  "lower s = map lower_char s"

section \<open>TextNormalizer\<close>

text \<open>
  \<open>TextNormalizer.normalize(text, remove_numbers)\<close>: the empty text gives the empty text;
  otherwise the text is lower-cased and \<open>re.sub\<close> deletes every character outside
  \<open>[a-z]\<close> (\<open>remove_numbers\<close>) or outside \<open>[a-z0-9]\<close>.
\<close>

definition normalize :: "string \<Rightarrow> bool \<Rightarrow> string" where
  "normalize text remove_numbers =
     (if text = [] then []
      else if remove_numbers then filter is_lower (lower text)
      else filter (\<lambda>c. is_lower c \<or> is_digit c) (lower text))"

text \<open>
  \<open>TextNormalizer.remove_special_encoding\<close> is \<open>re.sub(r'#x[0-9a-fA-F]+;', '', filename)\<close>.
  \<open>match_token s\<close> is the attempt to match the pattern at the start of \<open>s\<close>: \<open>#\<close>, \<open>x\<close>,
  the longest run of hexadecimal digits (one at least), then \<open>;\<close>. The character after
  the run is no hexadecimal digit, so giving digits back never helps and the greedy
  match is the only one. It returns the text after the match.
\<close>

fun match_token :: "string \<Rightarrow> string option" where
  "match_token (c1 # c2 # rest) =
     (if c1 = CHR ''#'' \<and> c2 = CHR ''x'' then
        (case dropWhile is_hex rest of
           [] \<Rightarrow> None
         | d # after \<Rightarrow>
             if takeWhile is_hex rest \<noteq> [] \<and> d = CHR '';'' then Some after else None)
      else None)"
| "match_token _ = None"

text \<open>
  \<open>re.sub\<close> scans from the left: where the pattern matches, the match is dropped and the
  scan goes on after it; elsewhere the character is copied and the scan moves one
  character on. The pattern matches no empty string.
\<close>

function remove_special_encoding :: "string \<Rightarrow> string" where
  "remove_special_encoding [] = []"
| "remove_special_encoding (c # cs) =
     (case match_token (c # cs) of
        Some after \<Rightarrow> remove_special_encoding after
      | None \<Rightarrow> c # remove_special_encoding cs)"
  by pat_completeness auto
termination
proof (relation "measure length")
  show "wf (measure length)" by simp
next
  fix c cs after
  assume m: "match_token (c # cs) = Some after"
  then obtain c2 rest where cs: "cs = c2 # rest"
    by (cases cs) auto
  from m cs obtain d where d: "dropWhile is_hex rest = d # after"
    by (auto split: if_splits list.splits)
  have "length (dropWhile is_hex rest) \<le> length rest"
    by (rule length_dropWhile_le)
  with d cs have "length after < length (c # cs)" by simp
  then show "(after, c # cs) \<in> measure length" by simp
next
  fix c :: char and cs :: string
  show "(cs, c # cs) \<in> measure length" by simp
qed


section \<open>PDFNameAnalyzer\<close>

definition DOI_PREFIXES :: "string list" where
  "DOI_PREFIXES = [''isj.'', ''j.1365-2575'', ''10.'']"

text \<open>\<open>_is_doi_format\<close>: the lower-cased name starts with one of the prefixes.\<close>

definition is_doi_format :: "string \<Rightarrow> bool" where
  "is_doi_format name =
     (let name_lower = lower name in list_ex (\<lambda>p. prefix p name_lower) DOI_PREFIXES)"

text \<open>\<open>_build_full_doi\<close>: \<open>name.startswith\<close> on the name as it is, without lower-casing.\<close>

definition build_full_doi :: "string \<Rightarrow> string" where
  "build_full_doi name =
     (if prefix ''isj.'' name then ''10.1111/'' @ name
      else if prefix ''j.1365-2575'' name then ''10.1111/'' @ name
      else if prefix ''10.'' name then name
      else name)"

text \<open>
  \<open>re.search\<close> returns the leftmost position where the pattern matches; \<open>search p s\<close>
  is that position for a pattern given by \<open>p\<close>, the test that it matches at the start
  of a text.
\<close>

fun search :: "(string \<Rightarrow> bool) \<Rightarrow> string \<Rightarrow> nat option" where
  "search p [] = (if p [] then Some 0 else None)"
| "search p (c # cs) = (if p (c # cs) then Some 0 else map_option Suc (search p cs))"

text \<open>The pattern \<open>_(\d{4})_\<close> at the start of a text.\<close>

fun year_mid_here :: "string \<Rightarrow> bool" where
  "year_mid_here (u # d1 # d2 # d3 # d4 # v # rest) =
     (u = CHR ''_'' \<and> is_digit d1 \<and> is_digit d2 \<and> is_digit d3 \<and> is_digit d4 \<and> v = CHR ''_'')"
| "year_mid_here _ = False"

text \<open>
  The pattern \<open>_(\d{4})$\<close> at the start of a text: Python's \<open>$\<close> matches at the end of
  the string and also just before a newline that ends the string.
\<close>

fun year_end_here :: "string \<Rightarrow> bool" where
  "year_end_here (u # d1 # d2 # d3 # d4 # rest) =
     (u = CHR ''_'' \<and> is_digit d1 \<and> is_digit d2 \<and> is_digit d3 \<and> is_digit d4 \<and>
      (rest = [] \<or> rest = [CHR 0x0A]))"
| "year_end_here _ = False"

definition extract_title_part :: "string \<Rightarrow> string" where
  "extract_title_part name =
     (case search year_mid_here name of
        Some start \<Rightarrow> take start name
      | None \<Rightarrow>
          (case search year_end_here name of
             Some start \<Rightarrow> take start name
           | None \<Rightarrow> name))"

definition analyze :: "string \<Rightarrow> string \<times> string \<times> bool" where
  "analyze pdf_name =
     (let cleaned_name = remove_special_encoding pdf_name;
          is_doi = is_doi_format cleaned_name
      in if is_doi then
           (let full_doi = build_full_doi cleaned_name;
                normalized_doi = normalize full_doi False;
                normalized_title = normalize cleaned_name True
            in (normalized_title, normalized_doi, True))
         else
           (let title_part = extract_title_part cleaned_name;
                normalized_title = normalize title_part True;
                normalized_doi = normalize cleaned_name False
            in (normalized_title, normalized_doi, False)))"

section \<open>Records and results\<close>

text \<open>
  The value of a record field is text or \<open>None\<close> (what the CSV source yields: a
  \<open>csv.DictReader\<close> row holds strings, and \<open>None\<close> for the fields a short row lacks).
  \<open>truthy\<close> is Python's truth value and \<open>py_str\<close> is \<open>str(v)\<close>. The other types a
  database document may hold are not modelled.
\<close>

datatype field_value = Str string | PyNone

fun truthy :: "field_value \<Rightarrow> bool" where
  "truthy (Str s) = (s \<noteq> [])"
| "truthy PyNone = False"

fun py_str :: "field_value \<Rightarrow> string" where
  "py_str (Str s) = s"
| "py_str PyNone = ''None''"

text \<open>
  A dict is an association list in insertion order; \<open>map_of\<close> reads it and
  \<^const>\<open>AList.update\<close> stores into it as Python does (the value of a key already
  there is replaced in place, a new key goes to the end).
\<close>

type_synonym path = string

record Record =
  data :: "(string \<times> field_value) list"
  source_id :: "string option"

definition get :: "Record \<Rightarrow> string \<Rightarrow> field_value \<Rightarrow> field_value" where
  \<comment> \<open>\<open>Record.get(key, default)\<close>, that is \<open>dict.get\<close>\<close>
  "get r key default_value =
     (case map_of (data r) key of Some v \<Rightarrow> v | None \<Rightarrow> default_value)"

record DataSourceResult =
  records :: "Record list"
  headers :: "string list"
  source_name :: string

datatype MatchStatus = MATCHED | UNMATCHED | MULTI_MATCHED

text \<open>
  The reason of a result is a message in Chinese: it is kept as the list of its code
  points.
\<close>

type_synonym message = "nat list"

record MatchResult =
  record_index :: nat
  record_val :: Record
  status :: MatchStatus
  matched_pdfs :: "path list"
  reason :: message

record BatchMatchResult =
  batch_source_name :: string
  total_records :: nat
  total_pdfs :: nat
  results :: "MatchResult list"

definition matched_results :: "BatchMatchResult \<Rightarrow> MatchResult list" where
  "matched_results b = filter (\<lambda>r. status r = MATCHED) (results b)"

definition unmatched_results :: "BatchMatchResult \<Rightarrow> MatchResult list" where
  "unmatched_results b = filter (\<lambda>r. status r = UNMATCHED) (results b)"

definition multi_matched_results :: "BatchMatchResult \<Rightarrow> MatchResult list" where
  "multi_matched_results b = filter (\<lambda>r. status r = MULTI_MATCHED) (results b)"

definition matched_count :: "BatchMatchResult \<Rightarrow> nat" where
  "matched_count b = length (matched_results b)"

definition unmatched_count :: "BatchMatchResult \<Rightarrow> nat" where
  "unmatched_count b = length (unmatched_results b)"

definition multi_matched_count :: "BatchMatchResult \<Rightarrow> nat" where
  "multi_matched_count b = length (multi_matched_results b)"

text \<open>
  \<open>match_rate\<close> divides two Python integers with \<open>/\<close>, whose result is the float
  nearest to the exact quotient. The model keeps the exact quotient.
\<close>

definition match_rate :: "BatchMatchResult \<Rightarrow> real" where
  "match_rate b =
     (if total_records b = 0 then 0 else real (matched_count b) / real (total_records b))"

section \<open>PDFScanner\<close>

text \<open>
  The file system is an input. \<open>scan_directory\<close> first calls \<open>directory.exists()\<close>,
  outside its \<open>try\<close> block. \<open>Path.exists\<close> answers \<open>False\<close> when \<open>stat\<close> fails with
  \<open>ENOENT\<close>, \<open>ENOTDIR\<close>, \<open>EBADF\<close> or \<open>ELOOP\<close>, and raises every other \<open>OSError\<close> of
  \<open>stat\<close>: a name longer than the file system allows, a parent directory that may not
  be searched. So a directory is
  \<^item> \<open>Missing\<close>: \<open>exists()\<close> answers \<open>False\<close>;
  \<^item> \<open>Unreachable\<close>: \<open>exists()\<close> raises, and the error leaves \<open>scan_directory\<close>;
  \<^item> \<open>Present\<close>: \<open>exists()\<close> answers \<open>True\<close>, with what \<open>directory.glob\<close> yields for the
    pattern \<open>*.pdf\<close> and for the pattern \<open>**/*.pdf\<close>: for each item its stem, its path
    and whether it is a regular file.
  A glob that raises part-way is the listing of the items it yielded before: the
  \<open>except\<close> clause logs the error and the files stored so far are returned.
\<close>

datatype py_error = OSError

record dir_entry =
  stem :: string
  location :: path
  is_file :: bool

datatype directory = Missing | Unreachable | Present "dir_entry list" "dir_entry list"

definition scan_directory :: "directory \<Rightarrow> bool \<Rightarrow> py_error + (string \<times> path) list" where
  "scan_directory dir recursive =
     (case dir of
        Unreachable \<Rightarrow> Inl OSError
      | Missing \<Rightarrow> Inr []
      | Present flat deep \<Rightarrow>
          Inr (fold (\<lambda>item pdf_files.
                       if is_file item then AList.update (stem item) (location item) pdf_files
                       else pdf_files)
                    (if recursive then deep else flat) []))"

section \<open>PDFMatcher\<close>

record PDFMatcher =
  title_column :: string
  doi_column :: string

type_synonym index = "(string \<times> (string \<times> path) list) list"

text \<open>
  \<open>index[key].append(entry)\<close> on a \<open>defaultdict(list)\<close>: a key not yet there is added at
  the end with the one entry.
\<close>

definition index_append :: "string \<Rightarrow> string \<times> path \<Rightarrow> index \<Rightarrow> index" where
  "index_append key entry idx =
     (case map_of idx key of
        None \<Rightarrow> idx @ [(key, [entry])]
      | Some entries \<Rightarrow> AList.update key (entries @ [entry]) idx)"

text \<open>One round of the loop over \<open>pdf_files.items()\<close> that fills the two indexes.\<close>

definition index_file :: "string \<times> path \<Rightarrow> index \<times> index \<Rightarrow> index \<times> index" where
  "index_file file indexes =
     (case file of (pdf_name, pdf_path) \<Rightarrow>
      case indexes of (title_index, doi_index) \<Rightarrow>
      case analyze pdf_name of (norm_title, norm_doi, is_doi) \<Rightarrow>
        (if norm_title \<noteq> [] \<and> \<not> is_doi \<and> length norm_title \<ge> 10
         then index_append norm_title (pdf_name, pdf_path) title_index else title_index,
         if norm_doi \<noteq> []
         then index_append norm_doi (pdf_name, pdf_path) doi_index else doi_index))"

definition build_indexes :: "(string \<times> path) list \<Rightarrow> index \<times> index" where
  "build_indexes pdf_files = fold index_file pdf_files ([], [])"

text \<open>
  \<open>_match_single_record\<close>, step 1: the value of \<open>matching_pdfs\<close> after the DOI loop.
  \<open>pdf_norm_doi in norm_doi\<close> on strings is the test for a contiguous substring,
  \<^const>\<open>sublist\<close>. The variable \<open>match_method\<close> is only logged and is left out.
\<close>

definition doi_phase :: "field_value \<Rightarrow> index \<Rightarrow> path list" where
  "doi_phase doi_value doi_index =
     (if truthy doi_value then
        (let norm_doi = normalize (py_str doi_value) False in
         if length norm_doi \<ge> 5 then
           fold (\<lambda>(pdf_norm_doi, pdf_list) matching_pdfs.
                   if pdf_norm_doi \<noteq> [] \<and> length pdf_norm_doi \<ge> 5 \<and>
                      (norm_doi = pdf_norm_doi \<or> sublist pdf_norm_doi norm_doi)
                   then matching_pdfs @ map snd pdf_list
                   else matching_pdfs)
                doi_index []
         else [])
      else [])"

text \<open>Step 2: the value of \<open>matching_pdfs\<close> after the title loop.\<close>

definition title_phase :: "path list \<Rightarrow> field_value \<Rightarrow> index \<Rightarrow> path list" where
  "title_phase matching_pdfs title_value title_index =
     (if matching_pdfs = [] \<and> truthy title_value then
        (let norm_title = normalize (py_str title_value) True in
         fold (\<lambda>(pdf_norm_title, pdf_list) matching.
                 if pdf_norm_title \<noteq> [] \<and> prefix pdf_norm_title norm_title
                 then matching @ map snd pdf_list
                 else matching)
              title_index matching_pdfs)
      else matching_pdfs)"

text \<open>\<open>list(dict.fromkeys(xs))\<close>: the elements of \<open>xs\<close> in the order they are first seen.\<close>

definition dict_fromkeys :: "'a list \<Rightarrow> 'a list" where
  "dict_fromkeys xs = fold (\<lambda>x keys. if x \<in> set keys then keys else keys @ [x]) xs []"

text \<open>\<open>str(n)\<close> for a length, as code points.\<close>

fun str_nat :: "nat \<Rightarrow> message" where
  "str_nat n = (if n < 10 then [48 + n] else str_nat (n div 10) @ [48 + n mod 10])"

declare str_nat.simps [simp del]

definition reason_no_pdf_files :: message where
  \<comment> \<open>"no PDF file in the directory"\<close>
  "reason_no_pdf_files =
     [0x76EE, 0x5F55, 0x4E2D, 0x6CA1, 0x6709, 0x20, 0x50, 0x44, 0x46, 0x20, 0x6587, 0x4EF6]"

definition reason_not_found :: message where
  \<comment> \<open>"no matching PDF file found"\<close>
  "reason_not_found =
     [0x672A, 0x627E, 0x5230, 0x5339, 0x914D, 0x7684, 0x20, 0x50, 0x44, 0x46, 0x20, 0x6587,
      0x4EF6]"

definition reason_multi :: "nat \<Rightarrow> message" where
  \<comment> \<open>"matched n PDF files"\<close>
  "reason_multi n =
     [0x5339, 0x914D, 0x5230, 0x20] @ str_nat n @
     [0x20, 0x4E2A, 0x20, 0x50, 0x44, 0x46, 0x20, 0x6587, 0x4EF6]"

definition match_single_record ::
  "PDFMatcher \<Rightarrow> nat \<Rightarrow> Record \<Rightarrow> index \<Rightarrow> index \<Rightarrow> MatchResult" where
  "match_single_record self idx record title_index doi_index =
     (let title_value = get record (title_column self) (Str []);
          doi_value = get record (doi_column self) (Str []);
          matching_pdfs = doi_phase doi_value doi_index;
          matching_pdfs = title_phase matching_pdfs title_value title_index;
          matching_pdfs = dict_fromkeys matching_pdfs
      in if length matching_pdfs = 0 then
           \<lparr>record_index = idx, record_val = record, status = UNMATCHED,
            matched_pdfs = [], reason = reason_not_found\<rparr>
         else if length matching_pdfs = 1 then
           \<lparr>record_index = idx, record_val = record, status = MATCHED,
            matched_pdfs = matching_pdfs, reason = []\<rparr>
         else
           \<lparr>record_index = idx, record_val = record, status = MULTI_MATCHED,
            matched_pdfs = matching_pdfs, reason = reason_multi (length matching_pdfs)\<rparr>)"

text \<open>
  \<open>match_all\<close>. It does not catch what \<open>scan_directory\<close> raises. Each of the two loops
  over \<open>enumerate(data_result.records)\<close> appends one result per record to
  \<open>result.results\<close>.
\<close>

definition match_all ::
  "PDFMatcher \<Rightarrow> directory \<Rightarrow> DataSourceResult \<Rightarrow> bool \<Rightarrow> py_error + BatchMatchResult" where
  "match_all self pdfs_dir data_result recursive_scan =
     (case scan_directory pdfs_dir recursive_scan of
        Inl e \<Rightarrow> Inl e
      | Inr pdf_files \<Rightarrow>
          (let result = \<lparr>batch_source_name = source_name data_result,
                         total_records = length (records data_result),
                         total_pdfs = length pdf_files,
                         results = []\<rparr>
           in if pdf_files = [] then
                Inr (fold (\<lambda>(idx, record) result.
                             result\<lparr>results := results result @
                               [\<lparr>record_index = idx, record_val = record, status = UNMATCHED,
                                 matched_pdfs = [], reason = reason_no_pdf_files\<rparr>]\<rparr>)
                          (enumerate 0 (records data_result)) result)
              else
                (case build_indexes pdf_files of (title_index, doi_index) \<Rightarrow>
                   Inr (fold (\<lambda>(idx, record) result.
                                result\<lparr>results := results result @
                                  [match_single_record self idx record title_index doi_index]\<rparr>)
                             (enumerate 0 (records data_result)) result))))"

section \<open>Predicates of the specification\<close>

text \<open>
  A text contains a token when it has a substring made of \<open>#x\<close>, one or more hexadecimal
  digits and \<open>;\<close>. \<open>has_token\<close> is the same test written with \<open>match_token\<close>, position
  by position.
\<close>

definition contains_token :: "string \<Rightarrow> bool" where
  "contains_token s =
     (\<exists>pre h post. s = pre @ ''#x'' @ h @ '';'' @ post \<and> h \<noteq> [] \<and> list_all is_hex h)"

fun has_token :: "string \<Rightarrow> bool" where
  "has_token [] = False"
| "has_token (c # cs) = (match_token (c # cs) \<noteq> None \<or> has_token cs)"

text \<open>
  What a result must satisfy: the list of matched locations is empty exactly for
  \<open>UNMATCHED\<close>, has one element exactly for \<open>MATCHED\<close>, two or more exactly for
  \<open>MULTI_MATCHED\<close>; an unmatched or multiply matched result has a reason; no location
  is listed twice.
\<close>

definition outcome_ok :: "MatchResult \<Rightarrow> bool" where
  "outcome_ok r =
     ((matched_pdfs r = [] \<longleftrightarrow> status r = UNMATCHED) \<and>
      (length (matched_pdfs r) = 1 \<longleftrightarrow> status r = MATCHED) \<and>
      (length (matched_pdfs r) \<ge> 2 \<longleftrightarrow> status r = MULTI_MATCHED) \<and>
      (status r = UNMATCHED \<or> status r = MULTI_MATCHED \<longrightarrow> reason r \<noteq> []) \<and>
      distinct (matched_pdfs r))"

text \<open>The result of a record when the scan found no file.\<close>

definition no_files_result :: "nat \<times> Record \<Rightarrow> MatchResult" where
  "no_files_result p =
     \<lparr>record_index = fst p, record_val = snd p, status = UNMATCHED,
      matched_pdfs = [], reason = reason_no_pdf_files\<rparr>"

text \<open>
  The locations held by the entries of an index whose key satisfies \<open>P\<close>, in the order
  of the index.
\<close>

definition locations_where :: "(string \<Rightarrow> bool) \<Rightarrow> index \<Rightarrow> path list" where
  "locations_where P idx = concat (map (\<lambda>(key, entries). map snd entries) (filter (\<lambda>(key, entries). P key) idx))"

text \<open>
  The entries stored under a key, none for a key that is absent; the three components
  of \<open>analyze\<close>; the conditions under which a file name goes into each index.
\<close>

definition index_get :: "index \<Rightarrow> string \<Rightarrow> (string \<times> path) list" where
  "index_get idx key = (case map_of idx key of None \<Rightarrow> [] | Some entries \<Rightarrow> entries)"

definition title_key :: "string \<Rightarrow> string" where
  "title_key pdf_name = fst (analyze pdf_name)"

definition doi_key :: "string \<Rightarrow> string" where
  "doi_key pdf_name = fst (snd (analyze pdf_name))"

definition is_doi_name :: "string \<Rightarrow> bool" where
  "is_doi_name pdf_name = snd (snd (analyze pdf_name))"

definition in_title_index :: "string \<Rightarrow> bool" where
  "in_title_index pdf_name =
     (title_key pdf_name \<noteq> [] \<and> \<not> is_doi_name pdf_name \<and> length (title_key pdf_name) \<ge> 10)"

definition in_doi_index :: "string \<Rightarrow> bool" where
  "in_doi_index pdf_name = (doi_key pdf_name \<noteq> [])"

text \<open>
  An index is well formed when no key occurs twice and no key holds an empty list. A
  file contributes to an index under a key when it is among the entries of that key.
\<close>

definition index_inv :: "index \<Rightarrow> bool" where
  "index_inv idx = (distinct (map fst idx) \<and> (\<forall>k. map_of idx k \<noteq> Some []))"

definition contributes :: "index \<Rightarrow> string \<Rightarrow> string \<times> path \<Rightarrow> bool" where
  "contributes idx key file = list_ex (\<lambda>(k, entries). k = key \<and> file \<in> set entries) idx"

text \<open>
  A name splits at a year token: an underscore, four digits, an underscore. The split is
  at the first year token when no split of the name has a shorter part before the token.
\<close>

definition year_token_split :: "string \<Rightarrow> string \<Rightarrow> string \<Rightarrow> string \<Rightarrow> bool" where
  "year_token_split name before year after =
     (name = before @ ''_'' @ year @ ''_'' @ after \<and> length year = 4 \<and> list_all is_digit year)"

definition first_year_token :: "string \<Rightarrow> string \<Rightarrow> string \<Rightarrow> string \<Rightarrow> bool" where
  "first_year_token name before year after =
     (year_token_split name before year after \<and>
      (\<forall>before' year' after'.
         year_token_split name before' year' after' \<longrightarrow> length before \<le> length before'))"

section \<open>Examples\<close>

text \<open>The end-to-end scenario of the test suite, and the batch of its property test.\<close>

definition example_matcher :: PDFMatcher where
  "example_matcher = \<lparr>title_column = ''Title'', doi_column = ''DOI''\<rparr>"

definition example_directory :: directory where
  "example_directory =
     Present [\<lparr>stem = ''A-computer-vision-based_2024_DSS'',
               location = ''/pdfs/A-computer-vision-based_2024_DSS.pdf'', is_file = True\<rparr>,
              \<lparr>stem = ''isj.12345'', location = ''/pdfs/isj.12345.pdf'', is_file = True\<rparr>] []"

definition example_records :: DataSourceResult where
  "example_records =
     \<lparr>records =
        [\<lparr>data = [(''Title'', Str ''A computer vision based concept model to recommend...''),
                  (''DOI'', Str ''10.1016/j.dss.2024.001'')], source_id = None\<rparr>,
         \<lparr>data = [(''Title'', Str ''Some other article''),
                  (''DOI'', Str ''10.1111/isj.12345'')], source_id = None\<rparr>,
         \<lparr>data = [(''Title'', Str ''Unmatched article''),
                  (''DOI'', Str ''10.9999/notfound'')], source_id = None\<rparr>],
      headers = [''Title'', ''DOI''], source_name = ''test''\<rparr>"

definition example_batch :: BatchMatchResult where
  "example_batch =
     \<lparr>batch_source_name = ''test'', total_records = 4, total_pdfs = 4,
      results =
        [\<lparr>record_index = 0, record_val = \<lparr>data = [], source_id = None\<rparr>, status = MATCHED,
          matched_pdfs = [''/a.pdf''], reason = []\<rparr>,
         \<lparr>record_index = 1, record_val = \<lparr>data = [], source_id = None\<rparr>, status = MATCHED,
          matched_pdfs = [''/b.pdf''], reason = []\<rparr>,
         \<lparr>record_index = 2, record_val = \<lparr>data = [], source_id = None\<rparr>, status = UNMATCHED,
          matched_pdfs = [], reason = [0x672A, 0x627E, 0x5230]\<rparr>,
         \<lparr>record_index = 3, record_val = \<lparr>data = [], source_id = None\<rparr>,
          status = MULTI_MATCHED, matched_pdfs = [''/c.pdf'', ''/d.pdf''], reason = []\<rparr>]\<rparr>"

definition small_index :: index where
  "small_index = [(''101111isj12345'', [(''isj.12345'', ''/pdfs/isj.12345.pdf'')])]"

definition small_record :: Record where
  "small_record = \<lparr>data = [(''DOI'', Str ''10.1111/isj.12345'')], source_id = None\<rparr>"

definition doi_index_example :: index where
  "doi_index_example =
     [(''101111isj12345'', [(''isj.12345'', ''/pdfs/isj.12345.pdf'')]),
      (''101111isj123456'', [(''isj.123456'', ''/pdfs/isj.123456.pdf'')]),
      (''isj1'', [(''isj.1'', ''/pdfs/isj.1.pdf'')])]"

definition title_index_example :: index where
  "title_index_example =
     [(''acomputervisionbased'',
       [(''A-computer-vision-based_2024_DSS'', ''/pdfs/A-computer-vision-based_2024_DSS.pdf'')]),
      (''acomputervisionbasedconceptmodelwithmore'', [(''longer'', ''/pdfs/longer.pdf'')])]"

definition example_files :: "(string \<times> path) list" where
  "example_files =
     [(''A-computer-vision-based_2024_DSS'', ''/pdfs/A-computer-vision-based_2024_DSS.pdf''),
      (''isj.12345'', ''/pdfs/isj.12345.pdf''),
      (''Short-one_2024_X'', ''/pdfs/Short-one_2024_X.pdf'')]"

section \<open>remove_special_encoding\<close>

lemma not_hex_semicolon: "\<not> is_hex CHR '';''"
  by (simp add: is_hex_def)

lemma match_token_iff:
  "match_token s = Some after \<longleftrightarrow>
     (\<exists>h. s = ''#x'' @ h @ '';'' @ after \<and> h \<noteq> [] \<and> list_all is_hex h)"
proof
  assume m: "match_token s = Some after"
  then obtain c1 c2 rest where s: "s = c1 # c2 # rest"
    by (cases s rule: match_token.cases) auto
  from m s have c: "c1 = CHR ''#''" "c2 = CHR ''x''"
    by (auto split: if_splits)
  from m s c have d: "dropWhile is_hex rest = CHR '';'' # after" and t: "takeWhile is_hex rest \<noteq> []"
    by (auto split: if_splits list.splits)
  have "rest = takeWhile is_hex rest @ dropWhile is_hex rest" by simp
  with d have "rest = takeWhile is_hex rest @ '';'' @ after" by simp
  moreover have "list_all is_hex (takeWhile is_hex rest)"
    by (simp add: list_all_iff) (meson set_takeWhileD)
  ultimately show "\<exists>h. s = ''#x'' @ h @ '';'' @ after \<and> h \<noteq> [] \<and> list_all is_hex h"
    using s c t by auto
next
  assume "\<exists>h. s = ''#x'' @ h @ '';'' @ after \<and> h \<noteq> [] \<and> list_all is_hex h"
  then obtain h where s: "s = ''#x'' @ h @ '';'' @ after" and h: "h \<noteq> []" "list_all is_hex h"
    by blast
  from h have tw: "takeWhile is_hex (h @ CHR '';'' # after) = h"
    by (simp add: list_all_iff not_hex_semicolon)
  from h have dw: "dropWhile is_hex (h @ CHR '';'' # after) = CHR '';'' # after"
    by (simp add: list_all_iff not_hex_semicolon)
  show "match_token s = Some after"
    using s h tw dw by simp
qed

lemma has_token_iff: "has_token s \<longleftrightarrow> contains_token s"
proof (induction s)
  case Nil
  show ?case by (simp add: contains_token_def)
next
  case (Cons c cs)
  show ?case
  proof
    assume "has_token (c # cs)"
    then consider after where "match_token (c # cs) = Some after" | "has_token cs"
      by auto
    then show "contains_token (c # cs)"
    proof cases
      case 1
      then obtain h where "c # cs = [] @ ''#x'' @ h @ '';'' @ after" "h \<noteq> []" "list_all is_hex h"
        unfolding match_token_iff by auto
      then show ?thesis unfolding contains_token_def by blast
    next
      case 2
      with Cons.IH obtain pre h post where "cs = pre @ ''#x'' @ h @ '';'' @ post" "h \<noteq> []" "list_all is_hex h"
        unfolding contains_token_def by blast
      then have "c # cs = (c # pre) @ ''#x'' @ h @ '';'' @ post \<and> h \<noteq> [] \<and> list_all is_hex h"
        by simp
      then show ?thesis unfolding contains_token_def by blast
    qed
  next
    assume "contains_token (c # cs)"
    then obtain pre h post where e: "c # cs = pre @ ''#x'' @ h @ '';'' @ post" and h: "h \<noteq> []" "list_all is_hex h"
      unfolding contains_token_def by blast
    show "has_token (c # cs)"
    proof (cases pre)
      case Nil
      with e h have "match_token (c # cs) = Some post"
        unfolding match_token_iff by auto
      then show ?thesis by simp
    next
      case (Cons p pre')
      with e have "cs = pre' @ ''#x'' @ h @ '';'' @ post" by simp
      with h have "contains_token cs" unfolding contains_token_def by blast
      with Cons.IH show ?thesis by simp
    qed
  qed
qed

lemma match_token_shorter: "match_token s = Some after \<Longrightarrow> length after < length s"
  unfolding match_token_iff by auto

lemma length_remove_special_encoding: "length (remove_special_encoding s) \<le> length s"
proof (induction s rule: remove_special_encoding.induct)
  case 1
  show ?case by simp
next
  case (2 c cs)
  show ?case
  proof (cases "match_token (c # cs)")
    case None
    with 2 show ?thesis by simp
  next
    case (Some after)
    with 2 match_token_shorter[OF Some] show ?thesis by simp
  qed
qed

lemma remove_special_encoding_fixed_iff:
  "remove_special_encoding s = s \<longleftrightarrow> \<not> has_token s"
proof (induction s)
  case Nil
  show ?case by simp
next
  case (Cons c cs)
  show ?case
  proof (cases "match_token (c # cs)")
    case None
    with Cons show ?thesis by simp
  next
    case (Some after)
    have "length (remove_special_encoding after) \<le> length after"
      by (rule length_remove_special_encoding)
    with match_token_shorter[OF Some]
    have "length (remove_special_encoding (c # cs)) < length (c # cs)"
      using Some by simp
    then have "remove_special_encoding (c # cs) \<noteq> c # cs" by auto
    with Some show ?thesis by simp
  qed
qed

text \<open>
  Claim C1, as amended. \<open>remove_special_encoding\<close> returns a text unchanged if it contains
  no token, and only then. It is one pass from left to right: applying it twice equals
  applying it once exactly when the first result contains no token.
\<close>

theorem C1_unchanged_iff_no_token:
  "(\<not> contains_token s \<longrightarrow> remove_special_encoding s = s) \<and>
   (remove_special_encoding s = s \<longrightarrow> \<not> contains_token s) \<and>
   (remove_special_encoding (remove_special_encoding s) = remove_special_encoding s
      \<longleftrightarrow> \<not> contains_token (remove_special_encoding s))"
  using remove_special_encoding_fixed_iff[of s]
    remove_special_encoding_fixed_iff[of "remove_special_encoding s"]
  by (simp add: has_token_iff)

text \<open>
  Claim C1 as stated fails: removing the token inside \<open>#x#x3f;3f;\<close> leaves \<open>#x3f;\<close>,
  a token that a second application removes.
\<close>

theorem C1_idempotence_counterexample:
  "remove_special_encoding (remove_special_encoding ''#x#x3f;3f;'')
     \<noteq> remove_special_encoding ''#x#x3f;3f;''"
  by code_simp

theorem C1_unchanged_iff_no_token_witness:
  "\<not> contains_token ''file.name'' \<and> remove_special_encoding ''file.name'' = ''file.name'' \<and>
   contains_token ''a#x3f;b'' \<and> remove_special_encoding ''a#x3f;b'' \<noteq> ''a#x3f;b'' \<and>
   remove_special_encoding (remove_special_encoding ''a#x3f;b'') = remove_special_encoding ''a#x3f;b''"
proof -
  have a: "\<not> contains_token ''file.name''"
    unfolding has_token_iff[symmetric] by code_simp
  have b: "contains_token ''a#x3f;b''"
    unfolding has_token_iff[symmetric] by code_simp
  have c: "\<not> contains_token (remove_special_encoding ''a#x3f;b'')"
    unfolding has_token_iff[symmetric] by code_simp
  show ?thesis
    using a b c C1_unchanged_iff_no_token[of "''file.name''"] C1_unchanged_iff_no_token[of "''a#x3f;b''"]
    by blast
qed

section \<open>match_all\<close>

lemma fold_append_results:
  "fold (\<lambda>(idx, record) result. result\<lparr>results := results result @ [f idx record]\<rparr>) xs r
     = r\<lparr>results := results r @ map (\<lambda>(idx, record). f idx record) xs\<rparr>"
  by (induction xs arbitrary: r) (auto split: prod.splits)

lemma match_all_scanned:
  assumes "scan_directory dir rec = Inr fs"
  shows "match_all self dir ds rec =
           Inr \<lparr>batch_source_name = source_name ds, total_records = length (records ds),
                total_pdfs = length fs,
                results =
                  (if fs = [] then map no_files_result (enumerate 0 (records ds))
                   else map (\<lambda>(idx, record). match_single_record self idx record
                               (fst (build_indexes fs)) (snd (build_indexes fs)))
                          (enumerate 0 (records ds)))\<rparr>"
proof -
  have "(\<lambda>(idx, record). \<lparr>record_index = idx, record_val = record, status = UNMATCHED,
           matched_pdfs = [], reason = reason_no_pdf_files\<rparr>) = no_files_result"
    by (auto simp: no_files_result_def)
  with assms show ?thesis
    by (simp add: match_all_def Let_def fold_append_results split: prod.splits)
qed

lemma match_all_raises:
  "scan_directory dir rec = Inl e \<Longrightarrow> match_all self dir ds rec = Inl e"
  by (simp add: match_all_def)

lemma scan_directory_returns:
  "dir \<noteq> Unreachable \<Longrightarrow> \<exists>fs. scan_directory dir rec = Inr fs"
  by (cases dir) (simp_all add: scan_directory_def)

lemma match_all_returns:
  "dir \<noteq> Unreachable \<Longrightarrow> \<exists>b. match_all self dir ds rec = Inr b"
  using scan_directory_returns[of dir rec] match_all_scanned[of dir rec _ self ds] by blast

lemma match_all_returned:
  assumes "match_all self dir ds rec = Inr b"
  obtains fs where "scan_directory dir rec = Inr fs"
    and "total_records b = length (records ds)"
    and "results b =
           (if fs = [] then map no_files_result (enumerate 0 (records ds))
            else map (\<lambda>(idx, record). match_single_record self idx record
                        (fst (build_indexes fs)) (snd (build_indexes fs)))
                   (enumerate 0 (records ds)))"
proof (cases "scan_directory dir rec")
  case (Inl e)
  with assms match_all_raises[OF Inl, of self ds] show ?thesis by simp
next
  case (Inr fs)
  from match_all_scanned[OF Inr, of self ds] assms
  have "b = \<lparr>batch_source_name = source_name ds, total_records = length (records ds),
            total_pdfs = length fs,
            results =
              (if fs = [] then map no_files_result (enumerate 0 (records ds))
               else map (\<lambda>(idx, record). match_single_record self idx record
                           (fst (build_indexes fs)) (snd (build_indexes fs)))
                      (enumerate 0 (records ds)))\<rparr>"
    by simp
  then have "total_records b = length (records ds)"
    and "results b =
           (if fs = [] then map no_files_result (enumerate 0 (records ds))
            else map (\<lambda>(idx, record). match_single_record self idx record
                        (fst (build_indexes fs)) (snd (build_indexes fs)))
                   (enumerate 0 (records ds)))"
    by simp_all
  with Inr that show ?thesis by blast
qed

lemma status_partition:
  "length (filter (\<lambda>r. status r = MATCHED) rs) + length (filter (\<lambda>r. status r = UNMATCHED) rs)
     + length (filter (\<lambda>r. status r = MULTI_MATCHED) rs) = length rs"
proof (induction rs)
  case Nil
  show ?case by simp
next
  case (Cons r rs)
  then show ?case by (cases "status r") simp_all
qed

section \<open>The batch result\<close>

text \<open>
  Claim C9. In every batch that \<open>match_all\<close> returns, the numbers of matched, unmatched
  and multiply matched results add up to the number of records given to the run, which
  is also the batch's \<open>total_records\<close>. \<open>match_all\<close> returns a batch for every directory
  whose existence test answers.
\<close>

theorem C9_counts_sum_to_total:
  "(match_all self dir ds rec = Inr b \<longrightarrow>
      matched_count b + unmatched_count b + multi_matched_count b = length (records ds) \<and>
      total_records b = length (records ds)) \<and>
   (dir \<noteq> Unreachable \<longrightarrow> (\<exists>b'. match_all self dir ds rec = Inr b'))"
proof (intro conjI impI)
  assume r: "match_all self dir ds rec = Inr b"
  from match_all_returned[OF r] have "length (results b) = length (records ds)"
    by (metis (no_types, lifting) length_enumerate length_map)
  then show "matched_count b + unmatched_count b + multi_matched_count b = length (records ds)"
    unfolding matched_count_def unmatched_count_def multi_matched_count_def
      matched_results_def unmatched_results_def multi_matched_results_def
    using status_partition[of "results b"] by simp
  from match_all_returned[OF r] show "total_records b = length (records ds)"
    by blast
next
  assume "dir \<noteq> Unreachable"
  then show "\<exists>b'. match_all self dir ds rec = Inr b'"
    by (rule match_all_returns)
qed

theorem C9_counts_sum_to_total_witness:
  "\<exists>b. match_all example_matcher example_directory example_records False = Inr b \<and>
       matched_count b + unmatched_count b + multi_matched_count b = 3 \<and>
       total_records b = 3"
proof -
  have "example_directory \<noteq> Unreachable"
    by (simp add: example_directory_def)
  with C9_counts_sum_to_total[of example_matcher example_directory example_records False]
  obtain b where b: "match_all example_matcher example_directory example_records False = Inr b"
    by blast
  have "length (records example_records) = 3"
    by (simp add: example_records_def)
  with b C9_counts_sum_to_total[of example_matcher example_directory example_records False b]
  show ?thesis by auto
qed

text \<open>
  Claim C10. The match rate is the matched count divided by the number of records when
  that number is positive, and 0 when it is 0.
\<close>

theorem C10_match_rate:
  "(total_records b > 0 \<longrightarrow> match_rate b = real (matched_count b) / real (total_records b)) \<and>
   (total_records b = 0 \<longrightarrow> match_rate b = 0)"
  by (simp add: match_rate_def)

theorem C10_match_rate_witness:
  "total_records example_batch > 0 \<and> match_rate example_batch = 1 / 2 \<and>
   total_records (example_batch\<lparr>total_records := 0\<rparr>) = 0 \<and>
   match_rate (example_batch\<lparr>total_records := 0\<rparr>) = 0"
proof -
  have m: "matched_count example_batch = 2"
    by (simp add: matched_count_def matched_results_def example_batch_def)
  have t: "total_records example_batch = 4"
    by (simp add: example_batch_def)
  show ?thesis
    using m t C10_match_rate[of example_batch]
      C10_match_rate[of "example_batch\<lparr>total_records := 0\<rparr>"]
    by simp
qed

section \<open>A scan without files\<close>

text \<open>
  A directory whose existence test answers \<open>False\<close> scans to no file. When the scan
  yields no file, \<open>match_all\<close> returns the batch in which every record, in order, is
  unmatched with the no-files reason and no matched location; no file name is analysed
  and no index is read.
\<close>

lemma scan_directory_Missing: "scan_directory Missing rec = Inr []"
  by (simp add: scan_directory_def)

lemma match_all_no_files:
  assumes "scan_directory dir rec = Inr []"
  shows "match_all self dir ds rec =
           Inr \<lparr>batch_source_name = source_name ds, total_records = length (records ds),
                total_pdfs = 0, results = map no_files_result (enumerate 0 (records ds))\<rparr>"
  using match_all_scanned[OF assms, of self ds] by simp

lemma match_all_Missing_example:
  "match_all example_matcher Missing example_records False =
     Inr \<lparr>batch_source_name = ''test'', total_records = 3, total_pdfs = 0,
          results =
            [\<lparr>record_index = 0, record_val = records example_records ! 0, status = UNMATCHED,
              matched_pdfs = [], reason = reason_no_pdf_files\<rparr>,
             \<lparr>record_index = 1, record_val = records example_records ! 1, status = UNMATCHED,
              matched_pdfs = [], reason = reason_no_pdf_files\<rparr>,
             \<lparr>record_index = 2, record_val = records example_records ! 2, status = UNMATCHED,
              matched_pdfs = [], reason = reason_no_pdf_files\<rparr>]\<rparr>"
  using match_all_no_files[of Missing False example_matcher example_records]
  by (simp add: scan_directory_Missing example_records_def no_files_result_def)

text \<open>
  Claim C8 at a missing directory whose existence test raises, as that of a directory
  with a name of 300 characters does. The \<open>try\<close> block of \<open>scan_directory\<close> turns an
  error of the glob into a logged message and a normal return, but \<open>directory.exists()\<close>
  stands before it: the error leaves \<open>scan_directory\<close> and \<open>match_all\<close>, and no batch is
  returned.
\<close>

theorem C8_existence_test_raises:
  "scan_directory Unreachable False = Inl OSError \<and>
   match_all example_matcher Unreachable example_records False = Inl OSError"
  by (simp add: scan_directory_def match_all_def)

section \<open>Classification of a record\<close>

lemma dict_fromkeys_fold:
  "distinct acc \<Longrightarrow>
   distinct (fold (\<lambda>x keys. if x \<in> set keys then keys else keys @ [x]) xs acc) \<and>
   set (fold (\<lambda>x keys. if x \<in> set keys then keys else keys @ [x]) xs acc) = set acc \<union> set xs"
  by (induction xs arbitrary: acc) auto

lemma distinct_dict_fromkeys: "distinct (dict_fromkeys xs)"
  using dict_fromkeys_fold[of "[]" xs] by (simp add: dict_fromkeys_def)

lemma set_dict_fromkeys: "set (dict_fromkeys xs) = set xs"
  using dict_fromkeys_fold[of "[]" xs] by (simp add: dict_fromkeys_def)

lemma reason_multi_not_empty: "reason_multi n \<noteq> []"
  by (simp add: reason_multi_def)

lemma outcome_ok_no_files_result: "outcome_ok (no_files_result p)"
  by (simp add: outcome_ok_def no_files_result_def reason_no_pdf_files_def)

lemma outcome_ok_match_single_record:
  "outcome_ok (match_single_record self idx record title_index doi_index)"
proof -
  define ps where "ps = dict_fromkeys (title_phase (doi_phase (get record (doi_column self) (Str [])) doi_index)
      (get record (title_column self) (Str [])) title_index)"
  have d: "distinct ps" by (simp add: ps_def distinct_dict_fromkeys)
  consider "length ps = 0" | "length ps = 1" | "length ps \<ge> 2" by linarith
  then show ?thesis
  proof cases
    case 1
    then show ?thesis
      by (simp add: match_single_record_def Let_def outcome_ok_def ps_def[symmetric]
          reason_not_found_def)
  next
    case 2
    then show ?thesis using d
      by (auto simp: match_single_record_def Let_def outcome_ok_def ps_def[symmetric])
  next
    case 3
    then show ?thesis using d
      by (auto simp: match_single_record_def Let_def outcome_ok_def ps_def[symmetric]
          reason_multi_not_empty)
  qed
qed

text \<open>
  Claim C6. The result of \<open>_match_single_record\<close> holds the collected locations without
  repetition, in first-seen order, and satisfies \<open>outcome_ok\<close>; so does every result in
  every batch that \<open>match_all\<close> returns.
\<close>

theorem C6_outcome_invariant:
  "outcome_ok (match_single_record self idx record title_index doi_index) \<and>
   matched_pdfs (match_single_record self idx record title_index doi_index) =
     dict_fromkeys (title_phase (doi_phase (get record (doi_column self) (Str [])) doi_index)
       (get record (title_column self) (Str [])) title_index) \<and>
   (match_all self dir ds rec = Inr b \<longrightarrow> (\<forall>r \<in> set (results b). outcome_ok r))"
proof -
  have "matched_pdfs (match_single_record self idx record title_index doi_index) =
     dict_fromkeys (title_phase (doi_phase (get record (doi_column self) (Str [])) doi_index)
       (get record (title_column self) (Str [])) title_index)"
    by (simp add: match_single_record_def Let_def)
  moreover have "\<forall>r \<in> set (results b). outcome_ok r"
    if r: "match_all self dir ds rec = Inr b"
  proof -
    from match_all_returned[OF r] obtain fs where
      "results b =
         (if fs = [] then map no_files_result (enumerate 0 (records ds))
          else map (\<lambda>(idx, record). match_single_record self idx record
                      (fst (build_indexes fs)) (snd (build_indexes fs)))
                 (enumerate 0 (records ds)))"
      by blast
    then show ?thesis
      by (auto simp: outcome_ok_no_files_result outcome_ok_match_single_record)
  qed
  ultimately show ?thesis
    by (simp add: outcome_ok_match_single_record)
qed

lemma doi_phase_small:
  "doi_phase (Str ''10.1111/isj.12345'') small_index = [''/pdfs/isj.12345.pdf'']"
  by code_simp

theorem C6_outcome_invariant_witness:
  "status (match_single_record example_matcher 0 small_record [] small_index) = MATCHED \<and>
   matched_pdfs (match_single_record example_matcher 0 small_record [] small_index)
     = [''/pdfs/isj.12345.pdf''] \<and>
   outcome_ok (match_single_record example_matcher 0 small_record [] small_index) \<and>
   (\<exists>b. match_all example_matcher Missing example_records False = Inr b \<and>
        length (results b) = 3 \<and> outcome_ok (results b ! 0))"
proof -
  have g: "get small_record (doi_column example_matcher) (Str []) = Str ''10.1111/isj.12345''"
    by (simp add: get_def small_record_def example_matcher_def)
  have m: "dict_fromkeys (title_phase (doi_phase (get small_record (doi_column example_matcher) (Str [])) small_index)
       (get small_record (title_column example_matcher) (Str [])) []) = [''/pdfs/isj.12345.pdf'']"
    by (simp add: g doi_phase_small title_phase_def dict_fromkeys_def)
  have s: "status (match_single_record example_matcher 0 small_record [] small_index) = MATCHED"
    using m by (simp add: match_single_record_def Let_def)
  obtain b where b: "match_all example_matcher Missing example_records False = Inr b"
      and l: "length (results b) = 3"
    using match_all_Missing_example by simp
  from l have "results b ! 0 \<in> set (results b)"
    by simp
  with b l have "\<exists>b. match_all example_matcher Missing example_records False = Inr b \<and>
        length (results b) = 3 \<and> outcome_ok (results b ! 0)"
    using C6_outcome_invariant[of example_matcher 0 small_record "[]" small_index
        Missing example_records False b]
    by blast
  then show ?thesis
    using s m C6_outcome_invariant[of example_matcher 0 small_record "[]" small_index
        Missing example_records False b]
    by simp
qed

section \<open>The two phases of a record\<close>

lemma fold_collect:
  "fold (\<lambda>(key, entries) acc. if P key then acc @ map snd entries else acc) idx acc
     = acc @ locations_where P idx"
  by (induction idx arbitrary: acc) (auto simp: locations_where_def)

lemma doi_phase_text:
  "doi_phase (Str d) idx =
     (if 5 \<le> length (normalize d False)
      then locations_where (\<lambda>key. 5 \<le> length key \<and>
             (key = normalize d False \<or> sublist key (normalize d False))) idx
      else [])"
proof -
  have e: "\<And>n. (\<lambda>(pdf_norm_doi, pdf_list) matching_pdfs.
               if pdf_norm_doi \<noteq> [] \<and> length pdf_norm_doi \<ge> 5 \<and>
                  (n = pdf_norm_doi \<or> sublist pdf_norm_doi n)
               then matching_pdfs @ map snd pdf_list else matching_pdfs)
         = (\<lambda>(key, entries) acc. if 5 \<le> length key \<and> (key = n \<or> sublist key n)
               then acc @ map snd entries else acc)"
    by (auto simp: fun_eq_iff)
  show ?thesis
  proof (cases "d = []")
    case True
    then show ?thesis by (simp add: doi_phase_def normalize_def)
  next
    case False
    then show ?thesis
      unfolding doi_phase_def Let_def e
      by (simp add: fold_collect)
  qed
qed

text \<open>
  Claim C3. For a record whose DOI field is the text \<open>d\<close>: if \<open>d\<close> normalizes (digits
  kept) to five characters or more, the DOI phase collects exactly the locations of the
  index entries whose key has five characters or more and equals the normalized DOI or
  is a substring of it; if \<open>d\<close> normalizes to fewer than five characters, the phase
  collects nothing whatever the index holds. A field that is \<open>None\<close> collects nothing.
\<close>

theorem C3_doi_phase:
  "(5 \<le> length (normalize d False) \<longrightarrow>
      doi_phase (Str d) doi_index =
        locations_where (\<lambda>key. 5 \<le> length key \<and>
          (key = normalize d False \<or> sublist key (normalize d False))) doi_index) \<and>
   (length (normalize d False) < 5 \<longrightarrow> doi_phase (Str d) doi_index = []) \<and>
   doi_phase PyNone doi_index = []"
  by (simp add: doi_phase_text) (simp add: doi_phase_def)

lemma title_phase_cases:
  "title_phase matching title_value title_index =
     (if matching \<noteq> [] then matching
      else case title_value of
             Str t \<Rightarrow> locations_where (\<lambda>key. key \<noteq> [] \<and> prefix key (normalize t True)) title_index
           | PyNone \<Rightarrow> [])"
proof (cases title_value)
  case PyNone
  then show ?thesis by (simp add: title_phase_def)
next
  case (Str t)
  show ?thesis
  proof (cases "t = []")
    case True
    have "locations_where (\<lambda>key. key \<noteq> [] \<and> prefix key []) title_index = []"
      by (induction title_index) (auto simp: locations_where_def)
    with True Str show ?thesis by (simp add: title_phase_def normalize_def)
  next
    case False
    with Str show ?thesis
      using fold_collect[of "\<lambda>key. key \<noteq> [] \<and> prefix key (normalize t True)" title_index "[]"]
      by (simp add: title_phase_def Let_def)
  qed
qed

text \<open>
  Claim C4. When the DOI phase collected a location, the title phase adds nothing. When
  it collected none, the title phase collects exactly the locations of the title-index
  entries whose key is not empty and is a prefix of the record's title normalized with
  the digits removed; a title that is \<open>None\<close> collects nothing.
\<close>

theorem C4_title_phase:
  "(doi_phase doi_value doi_index \<noteq> [] \<longrightarrow>
      title_phase (doi_phase doi_value doi_index) title_value title_index
        = doi_phase doi_value doi_index) \<and>
   (doi_phase doi_value doi_index = [] \<longrightarrow>
      title_phase (doi_phase doi_value doi_index) (Str t) title_index
        = locations_where (\<lambda>key. key \<noteq> [] \<and> prefix key (normalize t True)) title_index \<and>
      title_phase (doi_phase doi_value doi_index) PyNone title_index = [])"
  by (simp add: title_phase_cases)

theorem C3_doi_phase_witness:
  "5 \<le> length (normalize ''10.1111/isj.12345'' False) \<and>
   doi_phase (Str ''10.1111/isj.12345'') doi_index_example = [''/pdfs/isj.12345.pdf''] \<and>
   locations_where (\<lambda>key. 5 \<le> length key \<and>
       (key = normalize ''10.1111/isj.12345'' False \<or>
        sublist key (normalize ''10.1111/isj.12345'' False))) doi_index_example
     = [''/pdfs/isj.12345.pdf''] \<and>
   length (normalize ''10.1'' False) < 5 \<and>
   doi_phase (Str ''10.1'') doi_index_example = []"
proof -
  have h1: "5 \<le> length (normalize ''10.1111/isj.12345'' False)" by code_simp
  have h2: "length (normalize ''10.1'' False) < 5" by code_simp
  have v: "doi_phase (Str ''10.1111/isj.12345'') doi_index_example = [''/pdfs/isj.12345.pdf'']"
    by code_simp
  show ?thesis
    using h1 h2 v C3_doi_phase[of "''10.1111/isj.12345''" doi_index_example]
      C3_doi_phase[of "''10.1''" doi_index_example]
    by simp
qed

theorem C4_title_phase_witness:
  "doi_phase (Str ''10.1111/isj.12345'') doi_index_example \<noteq> [] \<and>
   title_phase (doi_phase (Str ''10.1111/isj.12345'') doi_index_example)
     (Str ''A computer vision based concept model'') title_index_example
     = [''/pdfs/isj.12345.pdf''] \<and>
   doi_phase (Str ''10.1016/j.dss.2024.001'') doi_index_example = [] \<and>
   title_phase (doi_phase (Str ''10.1016/j.dss.2024.001'') doi_index_example)
     (Str ''A computer vision based concept model'') title_index_example
     = [''/pdfs/A-computer-vision-based_2024_DSS.pdf''] \<and>
   locations_where (\<lambda>key. key \<noteq> [] \<and>
       prefix key (normalize ''A computer vision based concept model'' True)) title_index_example
     = [''/pdfs/A-computer-vision-based_2024_DSS.pdf'']"
proof -
  have d1: "doi_phase (Str ''10.1111/isj.12345'') doi_index_example = [''/pdfs/isj.12345.pdf'']"
    by code_simp
  have d2: "doi_phase (Str ''10.1016/j.dss.2024.001'') doi_index_example = []"
    by code_simp
  have t: "title_phase [] (Str ''A computer vision based concept model'') title_index_example
      = [''/pdfs/A-computer-vision-based_2024_DSS.pdf'']"
    by code_simp
  show ?thesis
    using d1 d2 t
      C4_title_phase[of "Str ''10.1111/isj.12345''" doi_index_example
        "Str ''A computer vision based concept model''" title_index_example]
      C4_title_phase[of "Str ''10.1016/j.dss.2024.001''" doi_index_example
        _ title_index_example "''A computer vision based concept model''"]
    by simp
qed

section \<open>Index construction\<close>

lemma map_of_index_append:
  "map_of (index_append key entry idx) k =
     (if k = key then Some (index_get idx key @ [entry]) else map_of idx k)"
  by (cases "map_of idx key")
     (auto simp: index_append_def index_get_def map_of_append map_add_def update_conv'
       split: option.splits)

lemma index_get_index_append:
  "index_get (index_append key entry idx) k =
     (if k = key then index_get idx key @ [entry] else index_get idx k)"
  by (simp add: index_get_def map_of_index_append)

lemma distinct_index_append:
  "distinct (map fst idx) \<Longrightarrow> distinct (map fst (index_append key entry idx))"
  by (auto simp: index_append_def map_of_eq_None_iff distinct_update split: option.splits)

lemma index_inv_Nil: "index_inv []"
  by (simp add: index_inv_def)

lemma index_inv_index_append: "index_inv idx \<Longrightarrow> index_inv (index_append key entry idx)"
  by (simp add: index_inv_def distinct_index_append map_of_index_append)

lemma index_inv_entry:
  assumes "index_inv idx"
  shows "(k, es) \<in> set idx \<longleftrightarrow> es \<noteq> [] \<and> index_get idx k = es"
proof -
  from assms have d: "distinct (map fst idx)" and n: "map_of idx k \<noteq> Some []"
    by (simp_all add: index_inv_def)
  from d have "(k, es) \<in> set idx \<longleftrightarrow> map_of idx k = Some es"
    by simp
  also have "\<dots> \<longleftrightarrow> es \<noteq> [] \<and> index_get idx k = es"
    using n by (cases "map_of idx k") (auto simp: index_get_def)
  finally show ?thesis .
qed

lemma index_get_Nil: "index_get [] k = []"
  by (simp add: index_get_def)

lemma index_file_get:
  "index_get (fst (index_file f iv)) k =
     index_get (fst iv) k @ (if in_title_index (fst f) \<and> title_key (fst f) = k then [f] else [])"
  "index_get (snd (index_file f iv)) k =
     index_get (snd iv) k @ (if in_doi_index (fst f) \<and> doi_key (fst f) = k then [f] else [])"
  by (auto simp: index_file_def index_get_index_append in_title_index_def in_doi_index_def
      title_key_def doi_key_def is_doi_name_def split: prod.splits)

lemma index_file_inv:
  "index_inv (fst iv) \<Longrightarrow> index_inv (fst (index_file f iv))"
  "index_inv (snd iv) \<Longrightarrow> index_inv (snd (index_file f iv))"
  by (auto simp: index_file_def index_inv_index_append split: prod.splits)

lemma fold_index_file_get:
  "index_get (fst (fold index_file fs iv)) k =
     index_get (fst iv) k @ filter (\<lambda>(n, p). in_title_index n \<and> title_key n = k) fs \<and>
   index_get (snd (fold index_file fs iv)) k =
     index_get (snd iv) k @ filter (\<lambda>(n, p). in_doi_index n \<and> doi_key n = k) fs"
proof (induction fs arbitrary: iv)
  case Nil
  show ?case by simp
next
  case (Cons f fs)
  show ?case
    using Cons.IH[of "index_file f iv"]
    by (cases f) (simp add: index_file_get)
qed

lemma fold_index_file_inv:
  "index_inv (fst iv) \<Longrightarrow> index_inv (fst (fold index_file fs iv))"
  "index_inv (snd iv) \<Longrightarrow> index_inv (snd (fold index_file fs iv))"
  by (induction fs arbitrary: iv) (simp_all add: index_file_inv)

lemma build_indexes_get:
  "index_get (fst (build_indexes pdf_files)) k =
     filter (\<lambda>(n, p). in_title_index n \<and> title_key n = k) pdf_files"
  "index_get (snd (build_indexes pdf_files)) k =
     filter (\<lambda>(n, p). in_doi_index n \<and> doi_key n = k) pdf_files"
  using fold_index_file_get[of pdf_files "([], [])" k]
  by (simp_all add: build_indexes_def index_get_Nil)

lemma build_indexes_inv:
  "index_inv (fst (build_indexes fs))" "index_inv (snd (build_indexes fs))"
  by (simp_all add: build_indexes_def fold_index_file_inv index_inv_Nil)

lemma contributes_index_get:
  assumes "index_inv idx"
  shows "contributes idx key file \<longleftrightarrow> file \<in> set (index_get idx key)"
proof -
  have "contributes idx key file \<longleftrightarrow> (\<exists>entries. (key, entries) \<in> set idx \<and> file \<in> set entries)"
    by (auto simp: contributes_def list_ex_iff)
  also have "\<dots> \<longleftrightarrow> (\<exists>entries. entries \<noteq> [] \<and> index_get idx key = entries \<and> file \<in> set entries)"
    by (simp add: index_inv_entry[OF assms])
  also have "\<dots> \<longleftrightarrow> file \<in> set (index_get idx key)"
    by auto
  finally show ?thesis .
qed

text \<open>
  Claim C5. A scanned file contributes to the title index, under its title key and under
  no other key, if and only if the title key is not empty, the name is not in DOI
  format and the title key has ten characters or more. A scanned file contributes to
  the DOI index, under its DOI key and under no other key, if and only if the DOI key
  is not empty.
\<close>

theorem C5_index_contributions:
  "(contributes (fst (build_indexes pdf_files)) key (n, p) \<longleftrightarrow>
      (n, p) \<in> set pdf_files \<and> key = title_key n \<and>
      title_key n \<noteq> [] \<and> \<not> is_doi_name n \<and> length (title_key n) \<ge> 10) \<and>
   (contributes (snd (build_indexes pdf_files)) key (n, p) \<longleftrightarrow>
      (n, p) \<in> set pdf_files \<and> key = doi_key n \<and> doi_key n \<noteq> [])"
  by (auto simp: contributes_index_get build_indexes_inv build_indexes_get
      in_title_index_def in_doi_index_def)

theorem C5_index_contributions_witness:
  "contributes (fst (build_indexes example_files)) ''acomputervisionbased''
     (''A-computer-vision-based_2024_DSS'', ''/pdfs/A-computer-vision-based_2024_DSS.pdf'') \<and>
   \<not> contributes (fst (build_indexes example_files)) ''isj''
       (''isj.12345'', ''/pdfs/isj.12345.pdf'') \<and>
   \<not> contributes (fst (build_indexes example_files)) ''shortone''
       (''Short-one_2024_X'', ''/pdfs/Short-one_2024_X.pdf'') \<and>
   contributes (snd (build_indexes example_files)) ''101111isj12345''
     (''isj.12345'', ''/pdfs/isj.12345.pdf'') \<and>
   contributes (snd (build_indexes example_files)) ''shortone2024x''
     (''Short-one_2024_X'', ''/pdfs/Short-one_2024_X.pdf'')"
proof -
  have a: "analyze ''A-computer-vision-based_2024_DSS''
      = (''acomputervisionbased'', ''acomputervisionbased2024dss'', False)"
    by code_simp
  have b: "analyze ''isj.12345'' = (''isj'', ''101111isj12345'', True)"
    by code_simp
  have c: "analyze ''Short-one_2024_X'' = (''shortone'', ''shortone2024x'', False)"
    by code_simp
  show ?thesis
    using
      C5_index_contributions[of example_files "''acomputervisionbased''"
        "''A-computer-vision-based_2024_DSS''" "''/pdfs/A-computer-vision-based_2024_DSS.pdf''"]
      C5_index_contributions[of example_files "''isj''" "''isj.12345''" "''/pdfs/isj.12345.pdf''"]
      C5_index_contributions[of example_files "''shortone''" "''Short-one_2024_X''"
        "''/pdfs/Short-one_2024_X.pdf''"]
      C5_index_contributions[of example_files "''101111isj12345''" "''isj.12345''"
        "''/pdfs/isj.12345.pdf''"]
      C5_index_contributions[of example_files "''shortone2024x''" "''Short-one_2024_X''"
        "''/pdfs/Short-one_2024_X.pdf''"]
    by (simp add: a b c title_key_def doi_key_def is_doi_name_def example_files_def)
qed

section \<open>The title part of a file name\<close>

lemma year_mid_here_iff:
  "year_mid_here s \<longleftrightarrow> (\<exists>year after. year_token_split s [] year after)"
proof
  assume "year_mid_here s"
  then obtain u d1 d2 d3 d4 v rest where s: "s = u # d1 # d2 # d3 # d4 # v # rest"
    by (cases s rule: year_mid_here.cases) auto
  with \<open>year_mid_here s\<close> have "year_token_split s [] [d1, d2, d3, d4] rest"
    by (simp add: year_token_split_def)
  then show "\<exists>year after. year_token_split s [] year after" by blast
next
  assume "\<exists>year after. year_token_split s [] year after"
  then obtain year after where y: "s = ''_'' @ year @ ''_'' @ after" "length year = 4"
      "list_all is_digit year"
    by (auto simp: year_token_split_def)
  from y(2) obtain d1 d2 d3 d4 where "year = [d1, d2, d3, d4]"
    by (cases year rule: year_end_here.cases) auto
  with y show "year_mid_here s" by simp
qed

lemma year_token_split_drop:
  "year_token_split name before year after \<longleftrightarrow>
     before = take (length before) name \<and> length before \<le> length name \<and>
     year_token_split (drop (length before) name) [] year after"
  by (auto simp: year_token_split_def) (metis append_take_drop_id)

lemma search_least:
  "n \<le> length s \<Longrightarrow> p (drop n s) \<Longrightarrow>
   \<exists>i\<le>n. search p s = Some i \<and> p (drop i s) \<and> (\<forall>j<i. \<not> p (drop j s))"
proof (induction s arbitrary: n)
  case Nil
  then show ?case by simp
next
  case (Cons c cs)
  show ?case
  proof (cases "p (c # cs)")
    case True
    then show ?thesis by simp
  next
    case False
    with Cons.prems obtain m where n: "n = Suc m" by (cases n) auto
    with Cons.prems have "m \<le> length cs" "p (drop m cs)" by simp_all
    from Cons.IH[OF this] obtain i where i: "i \<le> m" "search p cs = Some i" "p (drop i cs)"
        "\<forall>j<i. \<not> p (drop j cs)"
      by blast
    have "\<forall>j<Suc i. \<not> p (drop j (c # cs))"
    proof (intro allI impI)
      fix j assume "j < Suc i"
      then show "\<not> p (drop j (c # cs))"
        using False i(4) by (cases j) auto
    qed
    with i n False show ?thesis by auto
  qed
qed

lemma extract_title_part_year_token:
  assumes "year_token_split name before year after"
  shows "\<exists>i\<le>length before. extract_title_part name = take i before \<and>
           year_mid_here (drop i name)"
proof -
  from assms have l: "length before \<le> length name"
      and t: "before = take (length before) name"
      and y: "year_mid_here (drop (length before) name)"
    using year_token_split_drop[of name before year after] year_mid_here_iff by auto
  from search_least[OF l, of year_mid_here, OF y]
  obtain i where i: "i \<le> length before" "search year_mid_here name = Some i"
      "year_mid_here (drop i name)"
    by blast
  have "take i name = take i before"
    using i(1) t by (metis min.absorb2 take_take min.commute)
  with i show ?thesis by (auto simp: extract_title_part_def)
qed

lemma extract_title_part_first_year_token:
  assumes "first_year_token name before year after"
  shows "extract_title_part name = before"
proof -
  from assms have s: "year_token_split name before year after"
    and m: "\<And>b y a. year_token_split name b y a \<Longrightarrow> length before \<le> length b"
    by (auto simp: first_year_token_def)
  from extract_title_part_year_token[OF s]
  obtain i where i: "i \<le> length before" "extract_title_part name = take i before"
      "year_mid_here (drop i name)"
    by blast
  from i(3) obtain y a where "year_token_split (drop i name) [] y a"
    using year_mid_here_iff by blast
  moreover from i(1) s have "i \<le> length name"
    by (auto simp: year_token_split_def)
  ultimately have "year_token_split name (take i name) y a"
    using year_token_split_drop[of name "take i name" y a] by simp
  from m[OF this] i(1) \<open>i \<le> length name\<close> have "i = length before" by simp
  with i(2) show ?thesis by simp
qed

lemma title_key_not_doi:
  "\<not> is_doi_format (remove_special_encoding pdf_name) \<Longrightarrow>
   title_key pdf_name = normalize (extract_title_part (remove_special_encoding pdf_name)) True"
  by (simp add: title_key_def analyze_def Let_def)

lemma first_year_token_search:
  "first_year_token name before year after \<longleftrightarrow>
     year_token_split name before year after \<and> search year_mid_here name = Some (length before)"
proof
  assume f: "first_year_token name before year after"
  then have s: "year_token_split name before year after" by (simp add: first_year_token_def)
  from extract_title_part_year_token[OF s]
  obtain i where i: "i \<le> length before" "year_mid_here (drop i name)" by blast
  from s have l: "length before \<le> length name" by (auto simp: year_token_split_def)
  from f have m: "\<And>b y a. year_token_split name b y a \<Longrightarrow> length before \<le> length b"
    by (auto simp: first_year_token_def)
  from s have y: "year_mid_here (drop (length before) name)"
    using year_token_split_drop[of name before year after] year_mid_here_iff by auto
  from search_least[OF l, of year_mid_here, OF y]
  obtain k where k: "k \<le> length before" "search year_mid_here name = Some k"
      "year_mid_here (drop k name)"
    by blast
  from k(3) obtain y' a' where "year_token_split (drop k name) [] y' a'"
    using year_mid_here_iff by blast
  with k(1) l have "year_token_split name (take k name) y' a'"
    using year_token_split_drop[of name "take k name" y' a'] by simp
  from m[OF this] k(1) l have "k = length before" by simp
  with k s show "year_token_split name before year after \<and>
      search year_mid_here name = Some (length before)" by simp
next
  assume a: "year_token_split name before year after \<and>
      search year_mid_here name = Some (length before)"
  show "first_year_token name before year after"
    unfolding first_year_token_def
  proof (intro conjI allI impI)
    show "year_token_split name before year after" using a by simp
  next
    fix b y c assume s: "year_token_split name b y c"
    from extract_title_part_year_token[OF s]
    obtain i where "i \<le> length b" "extract_title_part name = take i b" "year_mid_here (drop i name)"
      by blast
    moreover from s have "length b \<le> length name" by (auto simp: year_token_split_def)
    moreover have "b = take (length b) name" using s by (auto simp: year_token_split_def)
    moreover have "extract_title_part name = take (length before) name"
      using a by (simp add: extract_title_part_def)
    ultimately have "take (length before) name = take i name"
      by (metis min.absorb2 take_take min.commute)
    moreover have "length before \<le> length name" using a by (auto simp: year_token_split_def)
    ultimately have "length before = i"
      using \<open>i \<le> length b\<close> \<open>length b \<le> length name\<close>
      by (metis length_take min.absorb2 le_trans)
    with \<open>i \<le> length b\<close> show "length before \<le> length b" by simp
  qed
qed

text \<open>
  Cleaning does not touch a year token: an underscore belongs to no \<open>#x..;\<close> token, so
  \<open>remove_special_encoding\<close> works on the two sides of an underscore separately, and a
  run of digits holds no token.
\<close>

lemma not_hex_underscore: "\<not> is_hex CHR ''_''"
  by (simp add: is_hex_def)

lemma match_token_underscore: "match_token (CHR ''_'' # r) = None"
  by (cases r) simp_all

lemma match_token_append_underscore:
  "match_token (b @ CHR ''_'' # r) = map_option (\<lambda>after. after @ CHR ''_'' # r) (match_token b)"
proof (cases b)
  case Nil
  then show ?thesis by (simp add: match_token_underscore)
next
  case b: (Cons c1 b')
  show ?thesis
  proof (cases b')
    case Nil
    with b show ?thesis by simp
  next
    case (Cons c2 rest)
    with b have 1: "b = c1 # c2 # rest" by simp
    show ?thesis
    proof (cases "\<forall>c\<in>set rest. is_hex c")
      case True
      then have e: "dropWhile is_hex rest = []"
        by simp
      show ?thesis
        unfolding 1 by (simp add: e True not_hex_underscore)
    next
      case False
      then have d: "dropWhile is_hex (rest @ CHR ''_'' # r) = dropWhile is_hex rest @ CHR ''_'' # r"
        and t: "takeWhile is_hex (rest @ CHR ''_'' # r) = takeWhile is_hex rest"
        by (auto simp: dropWhile_append takeWhile_append)
      from False have "dropWhile is_hex rest \<noteq> []" by (simp add: dropWhile_eq_Nil_conv)
      then obtain x xs where "dropWhile is_hex rest = x # xs"
        by (cases "dropWhile is_hex rest") auto
      with 1 d t show ?thesis by (simp add: not_hex_underscore)
    qed
  qed
qed

lemma remove_special_encoding_append_underscore:
  "remove_special_encoding (b @ CHR ''_'' # r)
     = remove_special_encoding b @ CHR ''_'' # remove_special_encoding r"
proof (induction b rule: remove_special_encoding.induct)
  case 1
  show ?case by (simp add: match_token_underscore)
next
  case (2 c cs)
  show ?case
  proof (cases "match_token (c # cs)")
    case None
    with 2 match_token_append_underscore[of "c # cs" r] show ?thesis by simp
  next
    case (Some after)
    with 2 match_token_append_underscore[of "c # cs" r] show ?thesis by simp
  qed
qed

lemma has_token_hash: "has_token s \<Longrightarrow> CHR ''#'' \<in> set s"
proof (induction s)
  case Nil
  then show ?case by simp
next
  case (Cons c cs)
  show ?case
  proof (cases "match_token (c # cs)")
    case None
    with Cons show ?thesis by simp
  next
    case (Some after)
    then have "c = CHR ''#''"
      by (cases cs) (auto split: if_splits)
    then show ?thesis by simp
  qed
qed

lemma remove_special_encoding_digits:
  "list_all is_digit year \<Longrightarrow> remove_special_encoding year = year"
proof -
  assume "list_all is_digit year"
  moreover have "\<not> is_digit CHR ''#''" by (simp add: is_digit_def)
  ultimately have "CHR ''#'' \<notin> set year" by (auto simp: list_all_iff)
  then have "\<not> has_token year" using has_token_hash by blast
  then show ?thesis by (simp add: remove_special_encoding_fixed_iff)
qed

lemma year_token_split_cleaned:
  assumes "year_token_split name before year after"
  shows "year_token_split (remove_special_encoding name) (remove_special_encoding before) year
           (remove_special_encoding after)"
proof -
  from assms have n: "name = before @ CHR ''_'' # (year @ CHR ''_'' # after)"
    and y: "length year = 4" "list_all is_digit year"
    by (simp_all add: year_token_split_def)
  have "remove_special_encoding name =
      remove_special_encoding before @ CHR ''_'' # remove_special_encoding year @ CHR ''_'' #
      remove_special_encoding after"
    unfolding n by (simp add: remove_special_encoding_append_underscore)
  with y show ?thesis
    by (simp add: year_token_split_def remove_special_encoding_digits)
qed

text \<open>
  Claim C7 as stated fails. The only year token of the file name \<open>A_20#x3f;24_B_2025_C\<close>
  is \<open>_2025_\<close>, but cleaning the name makes the earlier token \<open>_2024_\<close>, and the title
  part is \<open>A\<close>, not the text before \<open>_2025_\<close>. Of the two year tokens of
  \<open>A_2024_B_2025_C\<close> the search takes the first, so the title part is not the text
  before \<open>_2025_\<close> either.
\<close>

theorem C7_later_token_counterexample:
  "\<not> is_doi_format (remove_special_encoding ''A_20#x3f;24_B_2025_C'') \<and>
   first_year_token ''A_20#x3f;24_B_2025_C'' ''A_20#x3f;24_B'' ''2025'' ''C'' \<and>
   remove_special_encoding ''A_20#x3f;24_B'' = ''A_2024_B'' \<and>
   extract_title_part (remove_special_encoding ''A_20#x3f;24_B_2025_C'') = ''A'' \<and>
   extract_title_part (remove_special_encoding ''A_20#x3f;24_B_2025_C'') \<noteq> ''A_2024_B'' \<and>
   \<not> is_doi_format (remove_special_encoding ''A_2024_B_2025_C'') \<and>
   year_token_split ''A_2024_B_2025_C'' ''A_2024_B'' ''2025'' ''C'' \<and>
   extract_title_part (remove_special_encoding ''A_2024_B_2025_C'') \<noteq> ''A_2024_B''"
proof -
  have s: "search year_mid_here ''A_20#x3f;24_B_2025_C'' = Some (length ''A_20#x3f;24_B'')"
    by code_simp
  have y: "year_token_split ''A_20#x3f;24_B_2025_C'' ''A_20#x3f;24_B'' ''2025'' ''C''"
    by (simp add: year_token_split_def is_digit_def)
  have f: "first_year_token ''A_20#x3f;24_B_2025_C'' ''A_20#x3f;24_B'' ''2025'' ''C''"
    unfolding first_year_token_search using s y by simp
  have d1: "\<not> is_doi_format (remove_special_encoding ''A_20#x3f;24_B_2025_C'')"
    by code_simp
  have c: "remove_special_encoding ''A_20#x3f;24_B'' = ''A_2024_B''"
    by code_simp
  have e1: "extract_title_part (remove_special_encoding ''A_20#x3f;24_B_2025_C'') = ''A''"
    by code_simp
  have d2: "\<not> is_doi_format (remove_special_encoding ''A_2024_B_2025_C'')"
    by code_simp
  have z: "year_token_split ''A_2024_B_2025_C'' ''A_2024_B'' ''2025'' ''C''"
    by (simp add: year_token_split_def is_digit_def)
  have e2: "extract_title_part (remove_special_encoding ''A_2024_B_2025_C'') = ''A''"
    by code_simp
  show ?thesis
    using f d1 c e1 d2 z e2 by simp
qed

text \<open>
  Claim C7, as amended. The year token is searched in the cleaned name and the first one
  is taken. For a file name that is not
  in DOI format and whose cleaned form splits at its first year token, the title part
  is the text before the token, and the title key is that text normalized. For any year
  token of the file name, the title part is a prefix of the cleaned text before the
  token: it holds neither the year nor what follows. The title keys of
  \<open>A-title_2024_Journal\<close> and of \<open>A-title\<close> are equal.
\<close>

theorem C7_title_part_before_year:
  "(\<not> is_doi_format (remove_special_encoding pdf_name) \<and>
    first_year_token (remove_special_encoding pdf_name) before year after \<longrightarrow>
      extract_title_part (remove_special_encoding pdf_name) = before \<and>
      title_key pdf_name = normalize before True) \<and>
   (year_token_split pdf_name before year after \<longrightarrow>
      prefix (extract_title_part (remove_special_encoding pdf_name))
        (remove_special_encoding before)) \<and>
   title_key ''A-title_2024_Journal'' = title_key ''A-title''"
proof (intro conjI impI)
  assume a: "\<not> is_doi_format (remove_special_encoding pdf_name) \<and>
    first_year_token (remove_special_encoding pdf_name) before year after"
  then have e: "extract_title_part (remove_special_encoding pdf_name) = before"
    by (auto intro: extract_title_part_first_year_token)
  then show "extract_title_part (remove_special_encoding pdf_name) = before" .
  from e a show "title_key pdf_name = normalize before True"
    by (simp add: title_key_not_doi)
next
  assume "year_token_split pdf_name before year after"
  from extract_title_part_year_token[OF year_token_split_cleaned[OF this]]
  show "prefix (extract_title_part (remove_special_encoding pdf_name))
      (remove_special_encoding before)"
    by (auto simp: take_is_prefix)
next
  show "title_key ''A-title_2024_Journal'' = title_key ''A-title''"
    by code_simp
qed

theorem C7_title_part_before_year_witness:
  "\<not> is_doi_format (remove_special_encoding ''Title#x3f;With_2024_DSS_2025_x'') \<and>
   first_year_token (remove_special_encoding ''Title#x3f;With_2024_DSS_2025_x'')
     ''TitleWith'' ''2024'' ''DSS_2025_x'' \<and>
   extract_title_part (remove_special_encoding ''Title#x3f;With_2024_DSS_2025_x'') = ''TitleWith'' \<and>
   title_key ''Title#x3f;With_2024_DSS_2025_x'' = ''titlewith'' \<and>
   year_token_split ''Title#x3f;With_2024_DSS_2025_x'' ''Title#x3f;With_2024_DSS'' ''2025'' ''x'' \<and>
   prefix (extract_title_part (remove_special_encoding ''Title#x3f;With_2024_DSS_2025_x''))
     (remove_special_encoding ''Title#x3f;With_2024_DSS'')"
proof -
  have c: "remove_special_encoding ''Title#x3f;With_2024_DSS_2025_x'' = ''TitleWith_2024_DSS_2025_x''"
    by code_simp
  have d: "\<not> is_doi_format ''TitleWith_2024_DSS_2025_x''"
    by code_simp
  have s: "search year_mid_here ''TitleWith_2024_DSS_2025_x'' = Some (length ''TitleWith'')"
    by code_simp
  have y: "year_token_split ''TitleWith_2024_DSS_2025_x'' ''TitleWith'' ''2024'' ''DSS_2025_x''"
    by (simp add: year_token_split_def is_digit_def)
  have f: "first_year_token ''TitleWith_2024_DSS_2025_x'' ''TitleWith'' ''2024'' ''DSS_2025_x''"
    unfolding first_year_token_search using s y by simp
  have n: "normalize ''TitleWith'' True = ''titlewith''"
    by code_simp
  have z: "year_token_split ''Title#x3f;With_2024_DSS_2025_x'' ''Title#x3f;With_2024_DSS''
      ''2025'' ''x''"
    by (simp add: year_token_split_def is_digit_def)
  show ?thesis
    using c d f n z
      C7_title_part_before_year[of "''Title#x3f;With_2024_DSS_2025_x''" "''TitleWith''"
        "''2024''" "''DSS_2025_x''"]
      C7_title_part_before_year[of "''Title#x3f;With_2024_DSS_2025_x''"
        "''Title#x3f;With_2024_DSS''" "''2025''" "''x''"]
    by simp
qed

section \<open>DOI-format file names\<close>

text \<open>
  A cleaned name that starts with a short or legacy prefix written in lower case is in
  DOI format and its DOI key is the normalized name with the registrant code in front;
  a cleaned name that starts with \<open>10.\<close> is used as it is.
\<close>

lemma lower_prefixes:
  "lower ''isj.'' = ''isj.''" "lower ''j.1365-2575'' = ''j.1365-2575''" "lower ''10.'' = ''10.''"
  by code_simp+

lemma prefix_lower: "prefix p name \<Longrightarrow> prefix (lower p) (lower name)"
  by (auto simp: lower_def prefix_def)

lemma is_doi_format_lower_case_prefix:
  assumes "prefix ''isj.'' name \<or> prefix ''j.1365-2575'' name \<or> prefix ''10.'' name"
  shows "is_doi_format name"
  using assms prefix_lower[of "''isj.''" name] prefix_lower[of "''j.1365-2575''" name]
    prefix_lower[of "''10.''" name]
  unfolding lower_prefixes
  by (auto simp: is_doi_format_def DOI_PREFIXES_def Let_def)

lemma analyze_lower_case_prefix:
  assumes "prefix ''isj.'' (remove_special_encoding pdf_name) \<or>
           prefix ''j.1365-2575'' (remove_special_encoding pdf_name)"
  shows "analyze pdf_name =
           (normalize (remove_special_encoding pdf_name) True,
            normalize (''10.1111/'' @ remove_special_encoding pdf_name) False, True)"
  using assms is_doi_format_lower_case_prefix[of "remove_special_encoding pdf_name"]
  by (auto simp: analyze_def Let_def build_full_doi_def)

lemma analyze_generic_prefix:
  assumes "prefix ''10.'' (remove_special_encoding pdf_name)"
  shows "analyze pdf_name =
           (normalize (remove_special_encoding pdf_name) True,
            normalize (remove_special_encoding pdf_name) False, True)"
proof -
  from assms obtain r where "remove_special_encoding pdf_name = ''10.'' @ r"
    by (auto simp: prefix_def)
  then have "build_full_doi (remove_special_encoding pdf_name) = remove_special_encoding pdf_name"
    by (simp add: build_full_doi_def)
  with assms is_doi_format_lower_case_prefix[of "remove_special_encoding pdf_name"]
  show ?thesis by (simp add: analyze_def Let_def)
qed

text \<open>
  Claim C2 at the file name \<open>ISJ.12345\<close>. The cleaned name starts with \<open>isj.\<close> when
  compared without regard to case, and \<open>analyze\<close> reports the DOI format; but
  \<open>_build_full_doi\<close> compares the prefixes with regard to case, no branch applies, and
  the DOI key is the normalized name without the registrant code.
\<close>

theorem C2_upper_case_prefix_not_expanded:
  "prefix ''isj.'' (lower (remove_special_encoding ''ISJ.12345'')) \<and>
   analyze ''ISJ.12345'' = (''isj'', ''isj12345'', True) \<and>
   normalize (''10.1111/'' @ remove_special_encoding ''ISJ.12345'') False = ''101111isj12345''"
  by code_simp

end
